theory Spec2Isabelle
  imports Main "HOL-Library.Word"
begin

section \<open>The abstract machine's registers\<close>

text \<open>
  \<^verbatim>\<open>runtime/mercury_bootstrap.c\<close> is written against the macros of
  \<^verbatim>\<open>mercury_imp.h\<close>: the registers \<^verbatim>\<open>r1\<close>, \<^verbatim>\<open>r2\<close>, the continuation register
  read by \<^verbatim>\<open>proceed()\<close>, and \<^verbatim>\<open>save_transient_registers()\<close> /
  \<^verbatim>\<open>restore_transient_registers()\<close>. A register value is a machine word
  (\<^verbatim>\<open>Word\<close>); its width is left open as the type parameter of \<open>'w word\<close>.
\<close>

datatype reg = MR_succip | MR_hp | MR_sp | MR_curfr | MR_maxfr | MR_r nat

text \<open>
  The engine state: \<open>mr\<close> is the physical storage (machine registers) that holds the
  transient registers and that a nested call may reuse; \<open>MR_fake_reg\<close> is the
  in-memory register array, which holds the other registers and the saved copies.
\<close>

record 'v engine =
  mr :: "reg \<Rightarrow> 'v"
  MR_fake_reg :: "reg \<Rightarrow> 'v"

text \<open>
  What the file takes from headers and from other files of the runtime, as parameters:
  which registers are transient, the constants \<^verbatim>\<open>COMPARE_EQUAL\<close>,
  \<^verbatim>\<open>COMPARE_LESS\<close> and \<^verbatim>\<open>COMPARE_GREATER\<close>, the C function
  \<^verbatim>\<open>MR_compare_type_info\<close> (an \<^verbatim>\<open>int\<close> result, or \<open>None\<close> when the call
  ends the process instead of returning) and the effect of a call of it on the
  engine state. The function is external to the file, so nothing is assumed of
  the effect: \<open>c_call_effect rt a b\<close> may change the machine registers and the
  in-memory register array alike.
\<close>

record 'v runtime =
  transient :: "reg \<Rightarrow> bool"
  COMPARE_EQUAL :: int
  COMPARE_LESS :: int
  COMPARE_GREATER :: int
  MR_compare_type_info :: "'v \<Rightarrow> 'v \<Rightarrow> int option"
  c_call_effect :: "'v \<Rightarrow> 'v \<Rightarrow> 'v engine \<Rightarrow> 'v engine"

definition get_reg :: "'v runtime \<Rightarrow> 'v engine \<Rightarrow> reg \<Rightarrow> 'v" where
  "get_reg rt s x = (if transient rt x then mr s x else MR_fake_reg s x)"

definition set_reg :: "'v runtime \<Rightarrow> reg \<Rightarrow> 'v \<Rightarrow> 'v engine \<Rightarrow> 'v engine" where
  "set_reg rt x v s =
     (if transient rt x then s\<lparr>mr := (mr s)(x := v)\<rparr>
      else s\<lparr>MR_fake_reg := (MR_fake_reg s)(x := v)\<rparr>)"

text \<open>The registers the file names: \<^verbatim>\<open>r1\<close>, \<^verbatim>\<open>r2\<close> and the continuation register.\<close>

abbreviation r1 :: "'v runtime \<Rightarrow> 'v engine \<Rightarrow> 'v" where
  "r1 rt s \<equiv> get_reg rt s (MR_r 1)"

abbreviation r2 :: "'v runtime \<Rightarrow> 'v engine \<Rightarrow> 'v" where
  "r2 rt s \<equiv> get_reg rt s (MR_r 2)"

abbreviation succip :: "'v runtime \<Rightarrow> 'v engine \<Rightarrow> 'v" where
  "succip rt s \<equiv> get_reg rt s MR_succip"

text \<open>
  Modelled from the spec: the macros \<^verbatim>\<open>save_transient_registers()\<close> and
  \<^verbatim>\<open>restore_transient_registers()\<close> are defined in a header that is not part of
  the sources. The Register File section describes them: the transient registers
  are explicitly saved before, and restored after, a call that may reuse their
  physical storage.
\<close>

definition save_transient_registers :: "'v runtime \<Rightarrow> 'v engine \<Rightarrow> 'v engine" where
  "save_transient_registers rt s =
     s\<lparr>MR_fake_reg := (\<lambda>x. if transient rt x then mr s x else MR_fake_reg s x)\<rparr>"

definition restore_transient_registers :: "'v runtime \<Rightarrow> 'v engine \<Rightarrow> 'v engine" where
  "restore_transient_registers rt s =
     s\<lparr>mr := (\<lambda>x. if transient rt x then MR_fake_reg s x else mr s x)\<rparr>"

text \<open>
  A call of the C function \<^verbatim>\<open>MR_compare_type_info(a, b)\<close> from an entry point:
  its result, and the engine state as the call leaves it.
\<close>

definition call_MR_compare_type_info ::
  "'v runtime \<Rightarrow> 'v \<Rightarrow> 'v \<Rightarrow> 'v engine \<Rightarrow> (int \<times> 'v engine) option" where
  "call_MR_compare_type_info rt a b s =
     (case MR_compare_type_info rt a b of
        None \<Rightarrow> None
      | Some comp' \<Rightarrow> Some (comp', c_call_effect rt a b s))"

text \<open>
  \<^verbatim>\<open>proceed()\<close> leaves the entry point through the continuation register: the
  result is the code address control goes to, with the engine state.
\<close>

definition proceed :: "'v runtime \<Rightarrow> 'v engine \<Rightarrow> 'v \<times> 'v engine" where
  "proceed rt s = (succip rt s, s)"

section \<open>The entry points of \<^verbatim>\<open>unify_univ_module_bootstrap\<close>\<close>

definition mercury____Unify___std_util__type_info_0_0_bootstrap ::
  "'w::len word runtime \<Rightarrow> 'w word engine \<Rightarrow> ('w word \<times> 'w word engine) option" where
  "mercury____Unify___std_util__type_info_0_0_bootstrap rt s =
     (let s1 = save_transient_registers rt s in
      case call_MR_compare_type_info rt (r1 rt s1) (r2 rt s1) s1 of
        None \<Rightarrow> None
      | Some (comp', s2) \<Rightarrow>
          let s3 = restore_transient_registers rt s2;
              s4 = set_reg rt (MR_r 1) (if comp' = COMPARE_EQUAL rt then 1 else 0) s3
          in Some (proceed rt s4))"

definition mercury____Index___std_util__type_info_0_0_bootstrap ::
  "'w::len word runtime \<Rightarrow> 'w word engine \<Rightarrow> 'w word \<times> 'w word engine" where
  "mercury____Index___std_util__type_info_0_0_bootstrap rt s =
     proceed rt (set_reg rt (MR_r 1) (- 1) s)"

definition mercury____Compare___std_util__type_info_0_0_bootstrap ::
  "'w::len word runtime \<Rightarrow> 'w word engine \<Rightarrow> ('w word \<times> 'w word engine) option" where
  "mercury____Compare___std_util__type_info_0_0_bootstrap rt s =
     (let s1 = save_transient_registers rt s in
      case call_MR_compare_type_info rt (r1 rt s1) (r2 rt s1) s1 of
        None \<Rightarrow> None
      | Some (comp', s2) \<Rightarrow>
          let s3 = restore_transient_registers rt s2;
              s4 = set_reg rt (MR_r 1) (word_of_int comp') s3
          in Some (proceed rt s4))"

section \<open>The static data and the module\<close>

text \<open>
  The labels declared by \<^verbatim>\<open>Define_extern_entry\<close>, and the two data structures the
  descriptor points to (their contents come from macros of the headers and are
  not looked at).
\<close>

datatype label =
    entry_mercury____Unify___std_util__type_info_0_0_bootstrap
  | entry_mercury____Index___std_util__type_info_0_0_bootstrap
  | entry_mercury____Compare___std_util__type_info_0_0_bootstrap

datatype data_symbol =
    mercury_data_std_util__type_ctor_layout_type_info_0_bootstrap
  | mercury_data_std_util__type_ctor_functors_type_info_0_bootstrap

text \<open>
  The values a field of the descriptor is initialised with: \<^verbatim>\<open>(Integer) n\<close>,
  \<^verbatim>\<open>ENTRY(label)\<close>, \<^verbatim>\<open>(Word *) &symbol\<close> and \<^verbatim>\<open>string_const(s, n)\<close>.
\<close>

datatype initializer =
    Integer_cast int
  | ENTRY label
  | Word_ptr data_symbol
  | string_const string nat

record grade =
  USE_NONLOCAL_GOTOS :: bool
  USE_ASM_LABELS :: bool

text \<open>
  The descriptor is a positional initialiser of \<^verbatim>\<open>struct MR_TypeCtorInfo_struct\<close>,
  compiled only when \<^verbatim>\<open>!defined(USE_NONLOCAL_GOTOS) || defined(USE_ASM_LABELS)\<close>;
  in the other grades the file defines no descriptor.
\<close>

definition mercury_data_std_util__type_ctor_info_type_info_0 :: "grade \<Rightarrow> initializer list option" where
  "mercury_data_std_util__type_ctor_info_type_info_0 g =
     (if \<not> USE_NONLOCAL_GOTOS g \<or> USE_ASM_LABELS g then
        Some [Integer_cast 0,
              ENTRY entry_mercury____Unify___std_util__type_info_0_0_bootstrap,
              ENTRY entry_mercury____Index___std_util__type_info_0_0_bootstrap,
              ENTRY entry_mercury____Compare___std_util__type_info_0_0_bootstrap,
              Integer_cast 15,
              Word_ptr mercury_data_std_util__type_ctor_functors_type_info_0_bootstrap,
              Word_ptr mercury_data_std_util__type_ctor_layout_type_info_0_bootstrap,
              string_const ''std_util'' 8,
              string_const ''type_info'' 9]
      else None)"

text \<open>The kind of value a field holds, as the interface section of the spec names them.\<close>

datatype field_kind = integer | code_address | pointer | length_prefixed_string

fun kind_of :: "initializer \<Rightarrow> field_kind" where
  "kind_of (Integer_cast n) = integer"
| "kind_of (ENTRY l) = code_address"
| "kind_of (Word_ptr p) = pointer"
| "kind_of (string_const s n) = length_prefixed_string"

text \<open>
  The spec's description of the binary layout, in its words and order: arity,
  unifyEntry, indexEntry, compareEntry, functorsInfo, layoutInfo, moduleName,
  typeName. It is what the initialiser is compared with.
\<close>

definition spec_type_descriptor_layout :: "(string \<times> field_kind) list" where
  "spec_type_descriptor_layout =
     [(''arity'', integer),
      (''unifyEntry'', code_address),
      (''indexEntry'', code_address),
      (''compareEntry'', code_address),
      (''functorsInfo'', pointer),
      (''layoutInfo'', pointer),
      (''moduleName'', length_prefixed_string),
      (''typeName'', length_prefixed_string)]"

text \<open>
  Modelled from the spec: \<^verbatim>\<open>struct MR_TypeCtorInfo_struct\<close> is declared in a header
  that is not part of the sources. Its fields carry the names of the spec's data
  model; the integer the initialiser gives between the compare entry and the
  functors pointer is kept as a field of its own (\<open>extraInteger\<close>). A string
  constant is read as a string when its length prefix is its length.
\<close>

record MR_TypeCtorInfo_struct =
  arity :: int
  unifyEntry :: label
  indexEntry :: label
  compareEntry :: label
  extraInteger :: int
  functorsInfo :: data_symbol
  layoutInfo :: data_symbol
  moduleName :: string
  typeName :: string

fun the_Integer_cast :: "initializer \<Rightarrow> int option" where
  "the_Integer_cast (Integer_cast n) = Some n"
| "the_Integer_cast f = None"

fun the_ENTRY :: "initializer \<Rightarrow> label option" where
  "the_ENTRY (ENTRY l) = Some l"
| "the_ENTRY f = None"

fun the_Word_ptr :: "initializer \<Rightarrow> data_symbol option" where
  "the_Word_ptr (Word_ptr p) = Some p"
| "the_Word_ptr f = None"

fun the_string_const :: "initializer \<Rightarrow> string option" where
  "the_string_const (string_const s n) = (if length s = n then Some s else None)"
| "the_string_const f = None"

definition struct_of_initializer :: "initializer list \<Rightarrow> MR_TypeCtorInfo_struct option" where
  "struct_of_initializer fs =
     (case fs of
        [f0, f1, f2, f3, f4, f5, f6, f7, f8] \<Rightarrow>
          Option.bind (the_Integer_cast f0) (\<lambda>a.
          Option.bind (the_ENTRY f1) (\<lambda>u.
          Option.bind (the_ENTRY f2) (\<lambda>i.
          Option.bind (the_ENTRY f3) (\<lambda>c.
          Option.bind (the_Integer_cast f4) (\<lambda>e.
          Option.bind (the_Word_ptr f5) (\<lambda>f.
          Option.bind (the_Word_ptr f6) (\<lambda>l.
          Option.bind (the_string_const f7) (\<lambda>m.
          Option.bind (the_string_const f8) (\<lambda>t.
            Some \<lparr>arity = a, unifyEntry = u, indexEntry = i, compareEntry = c,
                  extraInteger = e, functorsInfo = f, layoutInfo = l,
                  moduleName = m, typeName = t\<rparr>)))))))))
      | _ \<Rightarrow> None)"

text \<open>
  Modelled from the spec: \<^verbatim>\<open>init_entry\<close> is a macro of the headers; the module
  registration installs the module's entry points into the global table, here the
  list of the labels registered so far.
\<close>

definition init_entry :: "label \<Rightarrow> label list \<Rightarrow> label list" where
  "init_entry l table = table @ [l]"

definition unify_univ_module_bootstrap :: "label list \<Rightarrow> label list" where
  "unify_univ_module_bootstrap table =
     init_entry entry_mercury____Compare___std_util__type_info_0_0_bootstrap
       (init_entry entry_mercury____Index___std_util__type_info_0_0_bootstrap
         (init_entry entry_mercury____Unify___std_util__type_info_0_0_bootstrap table))"

definition sys_init_unify_univ_module_bootstrap :: "label list \<Rightarrow> label list" where
  "sys_init_unify_univ_module_bootstrap table = unify_univ_module_bootstrap table"

text \<open>The code \<^verbatim>\<open>Define_entry\<close> places at each label of the module.\<close>

fun Define_entry ::
  "label \<Rightarrow> 'w::len word runtime \<Rightarrow> 'w word engine \<Rightarrow> ('w word \<times> 'w word engine) option" where
  "Define_entry entry_mercury____Unify___std_util__type_info_0_0_bootstrap rt s =
     mercury____Unify___std_util__type_info_0_0_bootstrap rt s"
| "Define_entry entry_mercury____Index___std_util__type_info_0_0_bootstrap rt s =
     Some (mercury____Index___std_util__type_info_0_0_bootstrap rt s)"
| "Define_entry entry_mercury____Compare___std_util__type_info_0_0_bootstrap rt s =
     mercury____Compare___std_util__type_info_0_0_bootstrap rt s"

section \<open>The engine entry invoker\<close>

text \<open>
  \<^verbatim>\<open>call_engine(entry_point)\<close> is \<^verbatim>\<open>(void) MR_call_engine(entry_point, FALSE)\<close>.
  \<^verbatim>\<open>MR_call_engine\<close> is a function of another file of the runtime and is taken
  as a parameter: from a code address, the flag and the state of the process it
  gives the value it returns and the state it leaves, or \<open>None\<close> when it does not
  return.
\<close>

definition call_engine ::
  "('c \<Rightarrow> bool \<Rightarrow> 'st \<Rightarrow> ('r \<times> 'st) option) \<Rightarrow> 'c \<Rightarrow> 'st \<Rightarrow> (unit \<times> 'st) option" where
  "call_engine MR_call_engine entry_point s =
     (case MR_call_engine entry_point False s of
        None \<Rightarrow> None
      | Some (r, s') \<Rightarrow> Some ((), s'))"

section \<open>The structural comparator\<close>

text \<open>
  Modelled from the spec: \<^verbatim>\<open>MR_compare_type_info\<close> is defined in another file of
  the runtime, which is not part of the sources. The Structural Comparator section
  gives its algorithm: two descriptor references are compared first by identity
  (address equality gives EQUAL); otherwise by arity, then by a lexicographic
  comparison of moduleName, then of typeName, then by a recursive comparison of
  the nested type-parameter descriptors captured in layoutInfo (depth first over
  the parameter list, the strategy the design notes suggest). A reference to a
  descriptor that is not registered is a fatal violation.

  A reference is an address of type \<open>'a\<close>; the table of registered descriptors
  maps an address to what the comparator reads of the descriptor. The graph of
  descriptors may be cyclic, so the recursion carries fuel: the depth it may
  still descend to.
\<close>

datatype comparison = LESS | EQUAL | GREATER

datatype compare_error = Malformed_graph | Out_of_fuel

record 'a registered_descriptor =
  reg_arity :: int
  reg_moduleName :: string
  reg_typeName :: string
  reg_layoutInfo :: "'a list"

text \<open>
  Modelled from the spec: the lexicographic comparison of two names (part of the
  comparator, which is not in the sources), character by character on the
  character codes, a proper prefix first.
\<close>

fun compare_string :: "string \<Rightarrow> string \<Rightarrow> comparison" where
  "compare_string [] [] = EQUAL"
| "compare_string [] (y # ys) = LESS"
| "compare_string (x # xs) [] = GREATER"
| "compare_string (x # xs) (y # ys) =
     (if (of_char x :: nat) < of_char y then LESS
      else if (of_char y :: nat) < of_char x then GREATER
      else compare_string xs ys)"

text \<open>
  Modelled from the spec: the comparison of two lists of nested type-parameter
  descriptors (part of the comparator, which is not in the sources), depth first:
  the first pair that is not EQUAL decides, and so does a failure.
\<close>

fun compare_lists ::
  "('a \<Rightarrow> 'a \<Rightarrow> compare_error + comparison) \<Rightarrow> 'a list \<Rightarrow> 'a list \<Rightarrow> compare_error + comparison" where
  "compare_lists f [] [] = Inr EQUAL"
| "compare_lists f [] (y # ys) = Inr LESS"
| "compare_lists f (x # xs) [] = Inr GREATER"
| "compare_lists f (x # xs) (y # ys) =
     (case f x y of
        Inr EQUAL \<Rightarrow> compare_lists f xs ys
      | r \<Rightarrow> r)"

text \<open>
  Modelled from the spec: the Structural Comparator (\<^verbatim>\<open>MR_compare_type_info\<close>,
  which is not in the sources), in the order of its algorithm: identity, arity,
  moduleName, typeName, nested parameters.
\<close>

primrec compare_descriptors ::
  "nat \<Rightarrow> ('a \<Rightarrow> 'a registered_descriptor option) \<Rightarrow> 'a \<Rightarrow> 'a \<Rightarrow> compare_error + comparison" where
  "compare_descriptors 0 table a b = (if a = b then Inr EQUAL else Inl Out_of_fuel)"
| "compare_descriptors (Suc n) table a b =
     (if a = b then Inr EQUAL
      else
        (case table a of
           None \<Rightarrow> Inl Malformed_graph
         | Some da \<Rightarrow>
            (case table b of
               None \<Rightarrow> Inl Malformed_graph
             | Some db \<Rightarrow>
                 (if reg_arity da < reg_arity db then Inr LESS
                  else if reg_arity db < reg_arity da then Inr GREATER
                  else
                    (case compare_string (reg_moduleName da) (reg_moduleName db) of
                       LESS \<Rightarrow> Inr LESS
                     | GREATER \<Rightarrow> Inr GREATER
                     | EQUAL \<Rightarrow>
                        (case compare_string (reg_typeName da) (reg_typeName db) of
                           LESS \<Rightarrow> Inr LESS
                         | GREATER \<Rightarrow> Inr GREATER
                         | EQUAL \<Rightarrow>
                             compare_lists (compare_descriptors n table)
                               (reg_layoutInfo da) (reg_layoutInfo db)))))))"

text \<open>
  The comparator as the entry points call it: the three-way result as the
  \<^verbatim>\<open>int\<close> constant of the runtime, and no return on a fatal violation.
\<close>

definition comparison_constant :: "'v runtime \<Rightarrow> comparison \<Rightarrow> int" where
  "comparison_constant rt c =
     (case c of LESS \<Rightarrow> COMPARE_LESS rt | EQUAL \<Rightarrow> COMPARE_EQUAL rt | GREATER \<Rightarrow> COMPARE_GREATER rt)"

definition with_structural_comparator ::
  "nat \<Rightarrow> ('v \<Rightarrow> 'v registered_descriptor option) \<Rightarrow> 'v runtime \<Rightarrow> 'v runtime" where
  "with_structural_comparator fuel table rt =
     rt\<lparr>MR_compare_type_info :=
          (\<lambda>a b. case compare_descriptors fuel table a b of
                   Inl e \<Rightarrow> None
                 | Inr c \<Rightarrow> Some (comparison_constant rt c))\<rparr>"

section \<open>Notions used in the proofs\<close>

text \<open>
  What it means for a three-way comparison with failures to behave as an order:
  swapping the arguments swaps LESS and GREATER (and keeps a failure), EQUAL can
  be replaced on either side, and LESS is transitive. The comparator is built
  from comparisons of this kind, one deciding where the one before gives EQUAL.
\<close>

fun flip_comparison :: "comparison \<Rightarrow> comparison" where
  "flip_comparison LESS = GREATER"
| "flip_comparison EQUAL = EQUAL"
| "flip_comparison GREATER = LESS"

definition consistent_order :: "('a \<Rightarrow> 'a \<Rightarrow> compare_error + comparison) \<Rightarrow> bool" where
  "consistent_order f \<longleftrightarrow>
     (\<forall>x y. f y x = map_sum id flip_comparison (f x y)) \<and>
     (\<forall>x y z r. f x y = Inr EQUAL \<longrightarrow> f y z = Inr r \<longrightarrow> f x z = Inr r) \<and>
     (\<forall>x y z r. f x y = Inr r \<longrightarrow> f y z = Inr EQUAL \<longrightarrow> f x z = Inr r) \<and>
     (\<forall>x y z. f x y = Inr LESS \<longrightarrow> f y z = Inr LESS \<longrightarrow> f x z = Inr LESS)"

definition then_compare ::
  "('a \<Rightarrow> 'a \<Rightarrow> compare_error + comparison) \<Rightarrow> ('a \<Rightarrow> 'a \<Rightarrow> compare_error + comparison) \<Rightarrow>
   'a \<Rightarrow> 'a \<Rightarrow> compare_error + comparison" where
  "then_compare f g x y = (case f x y of Inr EQUAL \<Rightarrow> g x y | r \<Rightarrow> r)"

definition compare_int :: "int \<Rightarrow> int \<Rightarrow> compare_error + comparison" where
  "compare_int m n = (if m < n then Inr LESS else if n < m then Inr GREATER else Inr EQUAL)"

definition structural_order ::
  "('a \<Rightarrow> 'a \<Rightarrow> compare_error + comparison) \<Rightarrow>
   'a registered_descriptor \<Rightarrow> 'a registered_descriptor \<Rightarrow> compare_error + comparison" where
  "structural_order g =
     then_compare (\<lambda>x y. compare_int (reg_arity x) (reg_arity y))
       (then_compare (\<lambda>x y. Inr (compare_string (reg_moduleName x) (reg_moduleName y)))
         (then_compare (\<lambda>x y. Inr (compare_string (reg_typeName x) (reg_typeName y)))
           (\<lambda>x y. compare_lists g (reg_layoutInfo x) (reg_layoutInfo y))))"

text \<open>
  The engine state in which the comparator's call returns to an entry point
  entered in state \<open>s\<close>, and the condition that this call left the in-memory
  register array as the entry point's save had written it. The spec says of its
  comparator that it has no side effects; of the external function the entry
  points call, the condition is a hypothesis wherever it is needed.
\<close>

definition after_comparator_call :: "'v runtime \<Rightarrow> 'v engine \<Rightarrow> 'v engine" where
  "after_comparator_call rt s =
     (let s1 = save_transient_registers rt s in c_call_effect rt (r1 rt s1) (r2 rt s1) s1)"

definition call_keeps_register_array :: "'v runtime \<Rightarrow> 'v engine \<Rightarrow> bool" where
  "call_keeps_register_array rt s \<longleftrightarrow>
     MR_fake_reg (after_comparator_call rt s) = MR_fake_reg (save_transient_registers rt s)"

text \<open>
  A table is well ranked when every parameter of a registered descriptor is
  registered and has a smaller rank than the descriptor: the graph of registered
  descriptors is closed and has no cycle.
\<close>

definition well_ranked :: "('a \<Rightarrow> 'a registered_descriptor option) \<Rightarrow> ('a \<Rightarrow> nat) \<Rightarrow> bool" where
  "well_ranked table rank \<longleftrightarrow>
     (\<forall>a d. table a = Some d \<longrightarrow>
        (\<forall>p \<in> set (reg_layoutInfo d). table p \<noteq> None \<and> rank p < rank a))"

section \<open>Concrete inputs\<close>

text \<open>
  A runtime and engine states on which the theorems are instantiated: 32-bit
  words, the registers \<open>r1\<close>, \<open>r2\<close> and the special registers transient, a comparator
  that orders addresses, and a call that zeroes every machine register and
  leaves the in-memory register array alone. The second runtime differs in the
  call only: it also writes 10 to the slot of \<open>hp\<close> in the in-memory register
  array, as a function that allocates on the heap does.
\<close>

definition example_runtime :: "32 word runtime" where
  "example_runtime =
     \<lparr>transient = (\<lambda>x. case x of MR_r n \<Rightarrow> n < 3 | _ \<Rightarrow> True),
      COMPARE_EQUAL = 0, COMPARE_LESS = 1, COMPARE_GREATER = 2,
      MR_compare_type_info = (\<lambda>a b. Some (if a = b then 0 else if a < b then 1 else 2)),
      c_call_effect = (\<lambda>a b s. s\<lparr>mr := (\<lambda>x. 0)\<rparr>)\<rparr>"

definition example_runtime_writing_hp :: "32 word runtime" where
  "example_runtime_writing_hp =
     example_runtime
       \<lparr>c_call_effect :=
          (\<lambda>a b s. s\<lparr>mr := (\<lambda>x. 0), MR_fake_reg := (MR_fake_reg s)(MR_hp := 10)\<rparr>)\<rparr>"

definition example_engine :: "32 word \<Rightarrow> 32 word \<Rightarrow> 32 word engine" where
  "example_engine a b =
     \<lparr>mr = (\<lambda>x. case x of MR_r n \<Rightarrow> (if n = 1 then a else if n = 2 then b else 70)
                | MR_succip \<Rightarrow> 99 | _ \<Rightarrow> 7),
      MR_fake_reg = (\<lambda>x. case x of MR_r n \<Rightarrow> 50 + of_nat n | _ \<Rightarrow> 5)\<rparr>"

text \<open>
  An engine invoker that records the addresses it ran and does not return from
  address 0, and the grade in which neither preprocessor symbol is defined.
\<close>

definition example_MR_call_engine :: "nat \<Rightarrow> bool \<Rightarrow> nat list \<Rightarrow> (nat \<times> nat list) option" where
  "example_MR_call_engine entry_point catch_exceptions trace =
     (if entry_point = 0 then None
      else Some (if catch_exceptions then 1 else 0, trace @ [entry_point]))"

definition example_grade :: grade where
  "example_grade = \<lparr>USE_NONLOCAL_GOTOS = False, USE_ASM_LABELS = False\<rparr>"

text \<open>
  A table of registered descriptors: two constructors of arity 0 that differ in
  the type name, and two instances of a constructor of arity 1 whose parameters
  are those two.
\<close>

definition example_table :: "32 word \<Rightarrow> 32 word registered_descriptor option" where
  "example_table =
     [1 \<mapsto> \<lparr>reg_arity = 0, reg_moduleName = ''mod'', reg_typeName = ''ctor1'', reg_layoutInfo = []\<rparr>,
      2 \<mapsto> \<lparr>reg_arity = 0, reg_moduleName = ''mod'', reg_typeName = ''ctor2'', reg_layoutInfo = []\<rparr>,
      3 \<mapsto> \<lparr>reg_arity = 1, reg_moduleName = ''mod'', reg_typeName = ''list'', reg_layoutInfo = [1]\<rparr>,
      4 \<mapsto> \<lparr>reg_arity = 1, reg_moduleName = ''mod'', reg_typeName = ''list'', reg_layoutInfo = [2]\<rparr>]"

section \<open>Register access\<close>

lemma get_reg_set_reg: "get_reg rt (set_reg rt x v s) y = (if y = x then v else get_reg rt s y)"
  by (simp add: get_reg_def set_reg_def)

lemma get_reg_restore: "get_reg rt (restore_transient_registers rt s) x = MR_fake_reg s x"
  by (simp add: get_reg_def restore_transient_registers_def)

lemma get_reg_save: "get_reg rt (save_transient_registers rt s) x = get_reg rt s x"
  by (simp add: get_reg_def save_transient_registers_def)

lemma MR_fake_reg_save: "MR_fake_reg (save_transient_registers rt s) x = get_reg rt s x"
  by (simp add: get_reg_def save_transient_registers_def)

lemma kept_register_array:
  "call_keeps_register_array rt s \<Longrightarrow> MR_fake_reg (after_comparator_call rt s) x = get_reg rt s x"
  by (simp add: call_keeps_register_array_def MR_fake_reg_save)

lemma unify_returns:
  assumes "MR_compare_type_info rt (r1 rt s) (r2 rt s) = Some c"
  shows "\<exists>s'. mercury____Unify___std_util__type_info_0_0_bootstrap rt s =
             Some (MR_fake_reg (after_comparator_call rt s) MR_succip, s')
           \<and> (\<forall>x. get_reg rt s' x =
                 (if x = MR_r 1 then (if c = COMPARE_EQUAL rt then 1 else 0)
                  else MR_fake_reg (after_comparator_call rt s) x))"
  using assms
  by (simp add: mercury____Unify___std_util__type_info_0_0_bootstrap_def
      call_MR_compare_type_info_def proceed_def Let_def get_reg_save get_reg_set_reg
      get_reg_restore after_comparator_call_def)

lemma unify_fails:
  assumes "MR_compare_type_info rt (r1 rt s) (r2 rt s) = None"
  shows "mercury____Unify___std_util__type_info_0_0_bootstrap rt s = None"
  using assms
  by (simp add: mercury____Unify___std_util__type_info_0_0_bootstrap_def
      call_MR_compare_type_info_def Let_def get_reg_save)

lemma compare_returns:
  assumes "MR_compare_type_info rt (r1 rt s) (r2 rt s) = Some c"
  shows "\<exists>s'. mercury____Compare___std_util__type_info_0_0_bootstrap rt s =
             Some (MR_fake_reg (after_comparator_call rt s) MR_succip, s')
           \<and> (\<forall>x. get_reg rt s' x =
                 (if x = MR_r 1 then word_of_int c
                  else MR_fake_reg (after_comparator_call rt s) x))"
  using assms
  by (simp add: mercury____Compare___std_util__type_info_0_0_bootstrap_def
      call_MR_compare_type_info_def proceed_def Let_def get_reg_save get_reg_set_reg
      get_reg_restore after_comparator_call_def)

lemma compare_fails:
  assumes "MR_compare_type_info rt (r1 rt s) (r2 rt s) = None"
  shows "mercury____Compare___std_util__type_info_0_0_bootstrap rt s = None"
  using assms
  by (simp add: mercury____Compare___std_util__type_info_0_0_bootstrap_def
      call_MR_compare_type_info_def Let_def get_reg_save)

lemma example_registers:
  "r1 example_runtime (example_engine a b) = a"
  "r2 example_runtime (example_engine a b) = b"
  "succip example_runtime (example_engine a b) = 99"
  "get_reg example_runtime (example_engine a b) MR_hp = 7"
  "get_reg example_runtime (example_engine a b) (MR_r 4) = 54"
  "transient example_runtime (MR_r 2)"
  "transient example_runtime MR_hp"
  "COMPARE_EQUAL example_runtime = 0"
  by (simp_all add: get_reg_def example_runtime_def example_engine_def)

lemma example_call_keeps_register_array:
  "call_keeps_register_array example_runtime (example_engine a b)"
  by (simp add: call_keeps_register_array_def after_comparator_call_def Let_def
      save_transient_registers_def example_runtime_def)

section \<open>The comparator is a consistent order\<close>

lemma consistent_orderI:
  assumes "\<And>x y. f y x = map_sum id flip_comparison (f x y)"
    and "\<And>x y z r. f x y = Inr EQUAL \<Longrightarrow> f y z = Inr r \<Longrightarrow> f x z = Inr r"
    and "\<And>x y z r. f x y = Inr r \<Longrightarrow> f y z = Inr EQUAL \<Longrightarrow> f x z = Inr r"
    and "\<And>x y z. f x y = Inr LESS \<Longrightarrow> f y z = Inr LESS \<Longrightarrow> f x z = Inr LESS"
  shows "consistent_order f"
  unfolding consistent_order_def
proof (intro conjI allI impI)
  fix x y show "f y x = map_sum id flip_comparison (f x y)" by (rule assms(1))
next
  fix x y z r assume "f x y = Inr EQUAL" "f y z = Inr r"
  then show "f x z = Inr r" by (rule assms(2))
next
  fix x y z r assume "f x y = Inr r" "f y z = Inr EQUAL"
  then show "f x z = Inr r" by (rule assms(3))
next
  fix x y z assume "f x y = Inr LESS" "f y z = Inr LESS"
  then show "f x z = Inr LESS" by (rule assms(4))
qed

lemma consistent_order_flip: "consistent_order f \<Longrightarrow> f y x = map_sum id flip_comparison (f x y)"
  unfolding consistent_order_def by blast

lemma consistent_order_eq_left:
  "consistent_order f \<Longrightarrow> f x y = Inr EQUAL \<Longrightarrow> f y z = Inr r \<Longrightarrow> f x z = Inr r"
  unfolding consistent_order_def by blast

lemma consistent_order_eq_right:
  "consistent_order f \<Longrightarrow> f x y = Inr r \<Longrightarrow> f y z = Inr EQUAL \<Longrightarrow> f x z = Inr r"
  unfolding consistent_order_def by blast

lemma consistent_order_less:
  "consistent_order f \<Longrightarrow> f x y = Inr LESS \<Longrightarrow> f y z = Inr LESS \<Longrightarrow> f x z = Inr LESS"
  unfolding consistent_order_def by blast

lemma flip_result_cases:
  "map_sum id flip_comparison r = Inr LESS \<longleftrightarrow> r = Inr GREATER"
  "map_sum id flip_comparison r = Inr GREATER \<longleftrightarrow> r = Inr LESS"
  "map_sum id flip_comparison r = Inr EQUAL \<longleftrightarrow> r = Inr EQUAL"
  "map_sum id flip_comparison r = Inl e \<longleftrightarrow> r = Inl e"
  subgoal by (cases r; simp; rename_tac c; case_tac c; simp)
  subgoal by (cases r; simp; rename_tac c; case_tac c; simp)
  subgoal by (cases r; simp; rename_tac c; case_tac c; simp)
  subgoal by (cases r; simp)
  done

lemma then_compare_flip:
  assumes "consistent_order f" "consistent_order g"
  shows "then_compare f g y x = map_sum id flip_comparison (then_compare f g x y)"
proof -
  have f: "f y x = map_sum id flip_comparison (f x y)" and g: "g y x = map_sum id flip_comparison (g x y)"
    by (rule consistent_order_flip [OF assms(1)], rule consistent_order_flip [OF assms(2)])
  show ?thesis
  proof (cases "f x y")
    case (Inl e)
    then show ?thesis by (simp add: then_compare_def f)
  next
    case (Inr c)
    then show ?thesis by (cases c) (simp_all add: then_compare_def f g)
  qed
qed

lemma then_compare_Inr_iff:
  "then_compare f g x y = Inr r \<longleftrightarrow>
     (f x y = Inr EQUAL \<and> g x y = Inr r) \<or> (f x y = Inr r \<and> r \<noteq> EQUAL)"
  by (auto simp: then_compare_def split: sum.splits comparison.splits)

lemma consistent_order_then_compare:
  assumes f: "consistent_order f" and g: "consistent_order g"
  shows "consistent_order (then_compare f g)"
proof (rule consistent_orderI)
  fix x y show "then_compare f g y x = map_sum id flip_comparison (then_compare f g x y)"
    by (rule then_compare_flip [OF f g])
next
  fix x y z r
  assume "then_compare f g x y = Inr EQUAL" "then_compare f g y z = Inr r"
  then show "then_compare f g x z = Inr r"
    unfolding then_compare_Inr_iff
    using consistent_order_eq_left [OF f] consistent_order_eq_left [OF g] by blast
next
  fix x y z r
  assume "then_compare f g x y = Inr r" "then_compare f g y z = Inr EQUAL"
  then show "then_compare f g x z = Inr r"
    unfolding then_compare_Inr_iff
    using consistent_order_eq_right [OF f] consistent_order_eq_right [OF g] by blast
next
  fix x y z
  assume "then_compare f g x y = Inr LESS" "then_compare f g y z = Inr LESS"
  then show "then_compare f g x z = Inr LESS"
    unfolding then_compare_Inr_iff
    using consistent_order_eq_left [OF f] consistent_order_eq_right [OF f]
      consistent_order_less [OF f] consistent_order_less [OF g] by blast
qed


lemma consistent_order_on_key:
  assumes g: "consistent_order g"
  shows "consistent_order (\<lambda>x y. g (k x) (k y))"
proof (rule consistent_orderI)
  fix x y show "g (k y) (k x) = map_sum id flip_comparison (g (k x) (k y))"
    by (rule consistent_order_flip [OF g])
next
  fix x y z r assume "g (k x) (k y) = Inr EQUAL" "g (k y) (k z) = Inr r"
  then show "g (k x) (k z) = Inr r" by (rule consistent_order_eq_left [OF g])
next
  fix x y z r assume "g (k x) (k y) = Inr r" "g (k y) (k z) = Inr EQUAL"
  then show "g (k x) (k z) = Inr r" by (rule consistent_order_eq_right [OF g])
next
  fix x y z assume "g (k x) (k y) = Inr LESS" "g (k y) (k z) = Inr LESS"
  then show "g (k x) (k z) = Inr LESS" by (rule consistent_order_less [OF g])
qed

lemma consistent_order_compare_int: "consistent_order compare_int"
  by (rule consistent_orderI) (auto simp: compare_int_def split: if_splits)

lemma compare_string_flip: "compare_string y x = flip_comparison (compare_string x y)"
proof (induction x y rule: compare_string.induct)
  case (4 x xs y ys)
  then show ?case by (cases "(of_char x :: nat) < of_char y"; cases "(of_char y :: nat) < of_char x"; simp)
qed simp_all

lemma compare_string_EQUAL: "compare_string x y = EQUAL \<longleftrightarrow> x = y"
  by (induction x y rule: compare_string.induct) (auto split: if_splits)

lemma compare_string_Cons_LESS:
  "compare_string (x # xs) (y # ys) = LESS \<longleftrightarrow>
     (of_char x :: nat) < of_char y \<or> ((of_char x :: nat) = of_char y \<and> compare_string xs ys = LESS)"
  by (cases "(of_char x :: nat) < of_char y"; cases "(of_char y :: nat) < of_char x"; auto)

lemma compare_string_LESS_trans:
  "compare_string x y = LESS \<Longrightarrow> compare_string y z = LESS \<Longrightarrow> compare_string x z = LESS"
proof (induction x y arbitrary: z rule: compare_string.induct)
  case 1
  then show ?case by simp
next
  case (2 y ys)
  then show ?case by (cases z) simp_all
next
  case (3 x xs)
  then show ?case by simp
next
  case (4 x xs y ys)
  show ?case
  proof (cases z)
    case Nil
    with 4(3) show ?thesis by simp
  next
    case (Cons c cs)
    from 4(2) have xy: "(of_char x :: nat) < of_char y \<or>
        ((of_char x :: nat) = of_char y \<and> compare_string xs ys = LESS)"
      by (simp only: compare_string_Cons_LESS)
    from 4(3) have yc: "(of_char y :: nat) < of_char c \<or>
        ((of_char y :: nat) = of_char c \<and> compare_string ys cs = LESS)"
      unfolding Cons by (simp only: compare_string_Cons_LESS)
    have step: "(of_char x :: nat) = of_char y \<Longrightarrow> compare_string xs ys = LESS \<Longrightarrow>
        compare_string ys cs = LESS \<Longrightarrow> compare_string xs cs = LESS"
      using 4(1) [of cs] by simp
    have "(of_char x :: nat) < of_char c \<or>
        ((of_char x :: nat) = of_char c \<and> compare_string xs cs = LESS)"
      using xy yc step by (elim disjE conjE) simp_all
    then show ?thesis unfolding Cons by (simp only: compare_string_Cons_LESS)
  qed
qed

lemma consistent_order_compare_string: "consistent_order (\<lambda>x y. Inr (compare_string x y))"
proof (rule consistent_orderI)
  fix x y :: string
  show "Inr (compare_string y x) = map_sum id flip_comparison (Inr (compare_string x y))"
    by (simp add: compare_string_flip [of y x])
next
  fix x y z :: string and r
  assume "Inr (compare_string x y) = (Inr EQUAL :: compare_error + comparison)"
    "Inr (compare_string y z) = (Inr r :: compare_error + comparison)"
  then show "Inr (compare_string x z) = (Inr r :: compare_error + comparison)"
    by (simp add: compare_string_EQUAL)
next
  fix x y z :: string and r
  assume "Inr (compare_string x y) = (Inr r :: compare_error + comparison)"
    "Inr (compare_string y z) = (Inr EQUAL :: compare_error + comparison)"
  then show "Inr (compare_string x z) = (Inr r :: compare_error + comparison)"
    by (simp add: compare_string_EQUAL)
next
  fix x y z :: string
  assume "Inr (compare_string x y) = (Inr LESS :: compare_error + comparison)"
    "Inr (compare_string y z) = (Inr LESS :: compare_error + comparison)"
  then show "Inr (compare_string x z) = (Inr LESS :: compare_error + comparison)"
    using compare_string_LESS_trans [of x y z] by simp
qed

lemma compare_lists_Cons_Inr_iff:
  "compare_lists f (x # xs) (y # ys) = Inr r \<longleftrightarrow>
     (f x y = Inr EQUAL \<and> compare_lists f xs ys = Inr r) \<or> (f x y = Inr r \<and> r \<noteq> EQUAL)"
  by (auto split: sum.splits comparison.splits)

lemma compare_lists_flip:
  "consistent_order f \<Longrightarrow> compare_lists f ys xs = map_sum id flip_comparison (compare_lists f xs ys)"
proof (induction f xs ys rule: compare_lists.induct)
  case (4 f x xs y ys)
  have fl: "f y x = map_sum id flip_comparison (f x y)"
    by (rule consistent_order_flip [OF "4.prems"])
  show ?case
  proof (cases "f x y")
    case (Inl e)
    then show ?thesis by (simp add: fl)
  next
    case (Inr c)
    then show ?thesis using 4 by (cases c) (simp_all add: fl)
  qed
qed simp_all

lemma compare_lists_trans:
  assumes f: "consistent_order f"
  shows "(compare_lists f xs ys = Inr EQUAL \<longrightarrow> compare_lists f ys zs = Inr r \<longrightarrow> compare_lists f xs zs = Inr r)
       \<and> (compare_lists f xs ys = Inr r \<longrightarrow> compare_lists f ys zs = Inr EQUAL \<longrightarrow> compare_lists f xs zs = Inr r)
       \<and> (compare_lists f xs ys = Inr LESS \<longrightarrow> compare_lists f ys zs = Inr LESS \<longrightarrow> compare_lists f xs zs = Inr LESS)"
proof (induction xs arbitrary: ys zs)
  case Nil
  show ?case by (cases ys; cases zs) (auto split: sum.splits comparison.splits)
next
  case (Cons x xs)
  show ?case
  proof (cases ys)
    case Nil
    then show ?thesis by (cases zs) (auto split: sum.splits comparison.splits)
  next
    case ys: (Cons y ys')
    show ?thesis
    proof (cases zs)
      case Nil
      then show ?thesis unfolding ys by simp
    next
      case zs: (Cons z zs')
      note IH = Cons.IH [of ys' zs']
      show ?thesis
        unfolding ys zs compare_lists_Cons_Inr_iff
        using IH consistent_order_eq_left [OF f, of x y z] consistent_order_eq_right [OF f, of x y _ z]
          consistent_order_less [OF f, of x y z]
        by blast
    qed
  qed
qed

lemma consistent_order_compare_lists:
  assumes f: "consistent_order f"
  shows "consistent_order (compare_lists f)"
proof (rule consistent_orderI)
  fix xs ys show "compare_lists f ys xs = map_sum id flip_comparison (compare_lists f xs ys)"
    by (rule compare_lists_flip [OF f])
next
  fix xs ys zs r assume "compare_lists f xs ys = Inr EQUAL" "compare_lists f ys zs = Inr r"
  then show "compare_lists f xs zs = Inr r"
    using compare_lists_trans [OF f, where xs=xs and ys=ys and zs=zs and r=r] by blast
next
  fix xs ys zs r assume "compare_lists f xs ys = Inr r" "compare_lists f ys zs = Inr EQUAL"
  then show "compare_lists f xs zs = Inr r"
    using compare_lists_trans [OF f, where xs=xs and ys=ys and zs=zs and r=r] by blast
next
  fix xs ys zs assume "compare_lists f xs ys = Inr LESS" "compare_lists f ys zs = Inr LESS"
  then show "compare_lists f xs zs = Inr LESS"
    using compare_lists_trans [OF f, where xs=xs and ys=ys and zs=zs and r=LESS] by blast
qed

lemma via_table_Inr:
  "(case table a of
      None \<Rightarrow> Inl Malformed_graph
    | Some da \<Rightarrow> (case table b of None \<Rightarrow> Inl Malformed_graph | Some db \<Rightarrow> S da db)) = Inr r
   \<longleftrightarrow> (\<exists>da db. table a = Some da \<and> table b = Some db \<and> S da db = Inr r)"
  by (cases "table a"; cases "table b"; simp)

lemma consistent_order_via_table:
  assumes S: "consistent_order S"
  shows "consistent_order (\<lambda>a b.
           case table a of
             None \<Rightarrow> Inl Malformed_graph
           | Some da \<Rightarrow> (case table b of None \<Rightarrow> Inl Malformed_graph | Some db \<Rightarrow> S da db))"
    (is "consistent_order ?K")
proof (rule consistent_orderI)
  fix x y
  show "?K y x = map_sum id flip_comparison (?K x y)"
  proof (cases "table x")
    case None
    then show ?thesis by (simp split: option.splits)
  next
    case dx: (Some da)
    show ?thesis
    proof (cases "table y")
      case None
      then show ?thesis by (simp add: dx)
    next
      case (Some db)
      then show ?thesis using consistent_order_flip [OF S, of db da] by (simp add: dx)
    qed
  qed
next
  fix x y z r assume "?K x y = Inr EQUAL" "?K y z = Inr r"
  then obtain da db dc where t: "table x = Some da" "table y = Some db" "table z = Some dc"
    and s: "S da db = Inr EQUAL" "S db dc = Inr r"
    unfolding via_table_Inr by auto
  from consistent_order_eq_left [OF S s] show "?K x z = Inr r" by (simp add: t)
next
  fix x y z r assume "?K x y = Inr r" "?K y z = Inr EQUAL"
  then obtain da db dc where t: "table x = Some da" "table y = Some db" "table z = Some dc"
    and s: "S da db = Inr r" "S db dc = Inr EQUAL"
    unfolding via_table_Inr by auto
  from consistent_order_eq_right [OF S s] show "?K x z = Inr r" by (simp add: t)
next
  fix x y z assume "?K x y = Inr LESS" "?K y z = Inr LESS"
  then obtain da db dc where t: "table x = Some da" "table y = Some db" "table z = Some dc"
    and s: "S da db = Inr LESS" "S db dc = Inr LESS"
    unfolding via_table_Inr by auto
  from consistent_order_less [OF S s] show "?K x z = Inr LESS" by (simp add: t)
qed

lemma consistent_order_identity_first:
  assumes K: "consistent_order K"
  shows "consistent_order (\<lambda>a b. if a = b then Inr EQUAL else K a b)"
    (is "consistent_order ?f")
proof (rule consistent_orderI)
  fix x y
  show "?f y x = map_sum id flip_comparison (?f x y)"
  proof (cases "x = y")
    case True
    then show ?thesis by simp
  next
    case False
    then have "y \<noteq> x" by simp
    with False show ?thesis using consistent_order_flip [OF K, of y x] by simp
  qed
next
  fix x y z r assume a: "?f x y = Inr EQUAL" "?f y z = Inr r"
  have fl: "K y x = map_sum id flip_comparison (K x y)"
    by (rule consistent_order_flip [OF K])
  show "?f x z = Inr r"
  proof (cases "x = y \<or> y = z")
    case True
    with a show ?thesis by auto
  next
    case False
    then have xy: "K x y = Inr EQUAL" and yz: "K y z = Inr r" using a by auto
    show ?thesis
    proof (cases "x = z")
      case True
      with yz fl xy have "r = EQUAL" by simp
      with True show ?thesis by simp
    next
      case False
      then show ?thesis using consistent_order_eq_left [OF K xy yz] by simp
    qed
  qed
next
  fix x y z r assume a: "?f x y = Inr r" "?f y z = Inr EQUAL"
  have fl: "K z y = map_sum id flip_comparison (K y z)"
    by (rule consistent_order_flip [OF K])
  show "?f x z = Inr r"
  proof (cases "x = y \<or> y = z")
    case True
    with a show ?thesis by auto
  next
    case False
    then have xy: "K x y = Inr r" and yz: "K y z = Inr EQUAL" using a by auto
    show ?thesis
    proof (cases "x = z")
      case True
      with yz fl xy have "r = EQUAL" by simp
      with True show ?thesis by simp
    next
      case False
      then show ?thesis using consistent_order_eq_right [OF K xy yz] by simp
    qed
  qed
next
  fix x y z assume a: "?f x y = Inr LESS" "?f y z = Inr LESS"
  have fl: "K z y = map_sum id flip_comparison (K y z)"
    by (rule consistent_order_flip [OF K])
  from a have ne: "x \<noteq> y" "y \<noteq> z" by (auto split: if_splits)
  then have xy: "K x y = Inr LESS" and yz: "K y z = Inr LESS" using a by auto
  show "?f x z = Inr LESS"
  proof (cases "x = z")
    case True
    with xy yz fl show ?thesis by simp
  next
    case False
    then show ?thesis using consistent_order_less [OF K xy yz] by simp
  qed
qed

lemma consistent_order_structural_order:
  assumes g: "consistent_order g"
  shows "consistent_order (structural_order g)"
  unfolding structural_order_def
  by (intro consistent_order_then_compare
      consistent_order_on_key [OF consistent_order_compare_int, of reg_arity]
      consistent_order_on_key [OF consistent_order_compare_string, of reg_moduleName]
      consistent_order_on_key [OF consistent_order_compare_string, of reg_typeName]
      consistent_order_on_key [OF consistent_order_compare_lists [OF g], of reg_layoutInfo])

lemma compare_descriptors_Suc_structural:
  "compare_descriptors (Suc n) table =
     (\<lambda>a b. if a = b then Inr EQUAL
        else (case table a of
            None \<Rightarrow> Inl Malformed_graph
          | Some da \<Rightarrow>
             (case table b of
                None \<Rightarrow> Inl Malformed_graph
              | Some db \<Rightarrow> structural_order (compare_descriptors n table) da db)))"
  by (intro ext)
    (simp add: structural_order_def then_compare_def compare_int_def
      split: option.splits comparison.splits)

lemma consistent_order_out_of_fuel: "consistent_order (\<lambda>a b. Inl Out_of_fuel)"
  by (rule consistent_orderI) simp_all

lemma compare_descriptors_0: 
  "compare_descriptors 0 table = (\<lambda>a b. if a = b then Inr EQUAL else Inl Out_of_fuel)"
  by (intro ext) simp

lemma consistent_order_compare_descriptors: "consistent_order (compare_descriptors n table)"
proof (induction n)
  case 0
  show ?case unfolding compare_descriptors_0
    by (rule consistent_order_identity_first [OF consistent_order_out_of_fuel])
next
  case (Suc n)
  show ?case unfolding compare_descriptors_Suc_structural
    by (rule consistent_order_identity_first
        [OF consistent_order_via_table [OF consistent_order_structural_order [OF Suc]]])
qed

section \<open>The Index entry point writes the sentinel\<close>

text \<open>
  C2. For every engine state (so for every type descriptor in the argument
  register), the generic Index entry point returns through the continuation with
  the sentinel \<open>-1\<close> in the output register \<open>r1\<close>: read as a signed integer the
  register holds \<open>-1\<close>, which is never a non-negative index.
\<close>

theorem index_writes_sentinel:
  "r1 rt (snd (mercury____Index___std_util__type_info_0_0_bootstrap rt s)) = - 1
   \<and> sint (r1 rt (snd (mercury____Index___std_util__type_info_0_0_bootstrap rt s))) = - 1
   \<and> \<not> 0 \<le> sint (r1 rt (snd (mercury____Index___std_util__type_info_0_0_bootstrap rt s)))
   \<and> fst (mercury____Index___std_util__type_info_0_0_bootstrap rt s) = succip rt s"
  by (simp add: mercury____Index___std_util__type_info_0_0_bootstrap_def proceed_def
      get_reg_set_reg)

section \<open>The Unify entry point agrees with the comparator\<close>

text \<open>
  C1. Whenever the comparator returns a result \<open>c\<close> for the descriptors in the
  argument registers \<open>r1\<close> and \<open>r2\<close>, the generic Unify entry point returns
  through the continuation with the boolean \<open>c = COMPARE_EQUAL\<close> in the output
  register \<open>r1\<close> (1 for true, 0 for false): the register is true exactly when
  the comparator's result is EQUAL, whatever else the comparator's call did to
  the machine registers and to memory. The continuation it returns through is
  the one the caller passed when the call left the in-memory register array
  alone. When the comparator does not return, neither does the entry point.
\<close>

theorem unify_true_iff_compare_equal:
  "(\<forall>c. MR_compare_type_info rt (r1 rt s) (r2 rt s) = Some c \<longrightarrow>
      (\<exists>k s'. mercury____Unify___std_util__type_info_0_0_bootstrap rt s = Some (k, s')
         \<and> r1 rt s' = (if c = COMPARE_EQUAL rt then 1 else 0)
         \<and> (r1 rt s' \<noteq> 0 \<longleftrightarrow> c = COMPARE_EQUAL rt)
         \<and> (call_keeps_register_array rt s \<longrightarrow> k = succip rt s)))
   \<and> (MR_compare_type_info rt (r1 rt s) (r2 rt s) = None \<longrightarrow>
        mercury____Unify___std_util__type_info_0_0_bootstrap rt s = None)"
proof (intro conjI allI impI)
  fix c assume c: "MR_compare_type_info rt (r1 rt s) (r2 rt s) = Some c"
  let ?k = "MR_fake_reg (after_comparator_call rt s) MR_succip"
  from unify_returns [OF c] obtain s' where
    u: "mercury____Unify___std_util__type_info_0_0_bootstrap rt s = Some (?k, s')"
    and r: "r1 rt s' = (if c = COMPARE_EQUAL rt then 1 else 0)"
    by auto
  from r have t: "r1 rt s' \<noteq> 0 \<longleftrightarrow> c = COMPARE_EQUAL rt" by simp
  have k: "call_keeps_register_array rt s \<longrightarrow> ?k = succip rt s"
    by (simp add: kept_register_array)
  show "\<exists>k s'. mercury____Unify___std_util__type_info_0_0_bootstrap rt s = Some (k, s')
         \<and> r1 rt s' = (if c = COMPARE_EQUAL rt then 1 else 0)
         \<and> (r1 rt s' \<noteq> 0 \<longleftrightarrow> c = COMPARE_EQUAL rt)
         \<and> (call_keeps_register_array rt s \<longrightarrow> k = succip rt s)"
    by (intro exI [of _ ?k] exI [of _ s'] conjI u r t k)
next
  assume "MR_compare_type_info rt (r1 rt s) (r2 rt s) = None"
  then show "mercury____Unify___std_util__type_info_0_0_bootstrap rt s = None"
    by (rule unify_fails)
qed

theorem unify_true_iff_compare_equal_witness:
  "MR_compare_type_info example_runtime (r1 example_runtime (example_engine 8 8))
     (r2 example_runtime (example_engine 8 8)) = Some 0
   \<and> (\<exists>s'. mercury____Unify___std_util__type_info_0_0_bootstrap example_runtime (example_engine 8 8)
              = Some (99, s') \<and> r1 example_runtime s' = 1)
   \<and> MR_compare_type_info example_runtime (r1 example_runtime (example_engine 8 9))
     (r2 example_runtime (example_engine 8 9)) = Some 1
   \<and> (\<exists>s'. mercury____Unify___std_util__type_info_0_0_bootstrap example_runtime (example_engine 8 9)
              = Some (99, s') \<and> r1 example_runtime s' = 0)"
proof -
  have a: "MR_compare_type_info example_runtime (r1 example_runtime (example_engine 8 8))
     (r2 example_runtime (example_engine 8 8)) = Some 0"
    unfolding example_registers by (simp add: example_runtime_def)
  have b: "MR_compare_type_info example_runtime (r1 example_runtime (example_engine 8 9))
     (r2 example_runtime (example_engine 8 9)) = Some 1"
    unfolding example_registers by (simp add: example_runtime_def)
  show ?thesis
    using unify_true_iff_compare_equal [of example_runtime "example_engine 8 8"]
      unify_true_iff_compare_equal [of example_runtime "example_engine 8 9"] a b
      example_call_keeps_register_array [of 8 8] example_call_keeps_register_array [of 8 9]
    unfolding example_registers by auto
qed

section \<open>The Compare entry point passes the comparator's result on\<close>

text \<open>
  C6. Whenever the comparator returns a result \<open>c\<close> for the descriptors in the
  argument registers \<open>r1\<close> and \<open>r2\<close>, the generic Compare entry point returns
  through the continuation with exactly \<open>c\<close> in the output register \<open>r1\<close>: the
  register holds the \<^verbatim>\<open>int\<close> converted to a machine word, and read back as a
  signed integer it is \<open>c\<close> for every \<open>c\<close> that fits the word, so for each of the
  three results, whatever else the comparator's call did to the machine
  registers and to memory. The continuation it returns through is the one the
  caller passed when the call left the in-memory register array alone. When the
  comparator does not return, neither does the entry point.
\<close>

theorem compare_writes_comparator_result:
  "(\<forall>c. MR_compare_type_info rt (r1 rt s) (r2 rt s) = Some c \<longrightarrow>
      (\<exists>k s'. mercury____Compare___std_util__type_info_0_0_bootstrap rt s = Some (k, s')
         \<and> r1 rt s' = word_of_int c
         \<and> (- (2 ^ (LENGTH('w) - 1)) \<le> c \<and> c < 2 ^ (LENGTH('w) - 1) \<longrightarrow> sint (r1 rt s') = c)
         \<and> (call_keeps_register_array rt s \<longrightarrow> k = succip rt s)))
   \<and> (MR_compare_type_info rt (r1 rt s) (r2 rt s) = None \<longrightarrow>
        mercury____Compare___std_util__type_info_0_0_bootstrap rt s = None)"
  for rt :: "'w::len word runtime"
proof (intro conjI allI impI)
  fix c assume c: "MR_compare_type_info rt (r1 rt s) (r2 rt s) = Some c"
  let ?k = "MR_fake_reg (after_comparator_call rt s) MR_succip"
  from compare_returns [OF c] obtain s' where
    u: "mercury____Compare___std_util__type_info_0_0_bootstrap rt s = Some (?k, s')"
    and r: "r1 rt s' = word_of_int c"
    by auto
  have i: "- (2 ^ (LENGTH('w) - 1)) \<le> c \<and> c < 2 ^ (LENGTH('w) - 1) \<longrightarrow> sint (r1 rt s') = c"
    unfolding r by (simp add: signed_take_bit_int_eq_self sint_sbintrunc')
  have k: "call_keeps_register_array rt s \<longrightarrow> ?k = succip rt s"
    by (simp add: kept_register_array)
  show "\<exists>k s'. mercury____Compare___std_util__type_info_0_0_bootstrap rt s = Some (k, s')
         \<and> r1 rt s' = word_of_int c
         \<and> (- (2 ^ (LENGTH('w) - 1)) \<le> c \<and> c < 2 ^ (LENGTH('w) - 1) \<longrightarrow> sint (r1 rt s') = c)
         \<and> (call_keeps_register_array rt s \<longrightarrow> k = succip rt s)"
    by (intro exI [of _ ?k] exI [of _ s'] conjI u r i k)
next
  assume "MR_compare_type_info rt (r1 rt s) (r2 rt s) = None"
  then show "mercury____Compare___std_util__type_info_0_0_bootstrap rt s = None"
    by (rule compare_fails)
qed

theorem compare_writes_comparator_result_witness:
  "MR_compare_type_info example_runtime (r1 example_runtime (example_engine 9 8))
     (r2 example_runtime (example_engine 9 8)) = Some 2
   \<and> (\<exists>s'. mercury____Compare___std_util__type_info_0_0_bootstrap example_runtime (example_engine 9 8)
              = Some (99, s') \<and> r1 example_runtime s' = 2 \<and> sint (r1 example_runtime s') = 2)"
proof -
  have a: "MR_compare_type_info example_runtime (r1 example_runtime (example_engine 9 8))
     (r2 example_runtime (example_engine 9 8)) = Some 2"
    unfolding example_registers by (simp add: example_runtime_def)
  show ?thesis
    using compare_writes_comparator_result [of example_runtime "example_engine 9 8"] a
      example_call_keeps_register_array [of 9 8]
    unfolding example_registers by auto
qed

section \<open>Registers across the nested call\<close>

lemma example_runtime_writing_hp_registers:
  "r1 example_runtime_writing_hp (example_engine a b) = a"
  "r2 example_runtime_writing_hp (example_engine a b) = b"
  "get_reg example_runtime_writing_hp (example_engine a b) MR_hp = 7"
  "transient example_runtime_writing_hp MR_hp"
  "MR_fake_reg (after_comparator_call example_runtime_writing_hp (example_engine a b)) MR_hp = 10"
  by (simp_all add: get_reg_def example_runtime_writing_hp_def example_runtime_def
      example_engine_def after_comparator_call_def Let_def)

text \<open>
  C5, as the spec states it, fails: nothing in the entry points constrains the
  comparator's call, and they restore from the in-memory register array whatever
  that call left there. With a comparator whose call writes 10 to the slot of
  the transient register \<open>hp\<close>, the Unify entry point entered with \<open>hp = 7\<close>
  returns with \<open>hp = 10\<close>.
\<close>

theorem entry_point_returns_what_the_call_left:
  "transient example_runtime_writing_hp MR_hp
   \<and> MR_hp \<noteq> MR_r 1
   \<and> get_reg example_runtime_writing_hp (example_engine 8 9) MR_hp = 7
   \<and> mercury____Unify___std_util__type_info_0_0_bootstrap example_runtime_writing_hp (example_engine 8 9) \<noteq> None
   \<and> get_reg example_runtime_writing_hp
        (snd (the (mercury____Unify___std_util__type_info_0_0_bootstrap example_runtime_writing_hp (example_engine 8 9)))) MR_hp = 10"
proof -
  have c: "MR_compare_type_info example_runtime_writing_hp
      (r1 example_runtime_writing_hp (example_engine 8 9))
      (r2 example_runtime_writing_hp (example_engine 8 9)) = Some 1"
    unfolding example_runtime_writing_hp_registers
    by (simp add: example_runtime_writing_hp_def example_runtime_def)
  from unify_returns [OF c] obtain k s' where
    u: "mercury____Unify___std_util__type_info_0_0_bootstrap example_runtime_writing_hp (example_engine 8 9) = Some (k, s')"
    and f: "\<forall>x. get_reg example_runtime_writing_hp s' x =
              (if x = MR_r 1 then (if 1 = COMPARE_EQUAL example_runtime_writing_hp then 1 else 0)
               else MR_fake_reg
                 (after_comparator_call example_runtime_writing_hp (example_engine 8 9)) x)"
    by blast
  from f [rule_format, of MR_hp] have h: "get_reg example_runtime_writing_hp s' MR_hp = 10"
    by (simp add: example_runtime_writing_hp_registers)
  have n: "mercury____Unify___std_util__type_info_0_0_bootstrap example_runtime_writing_hp (example_engine 8 9) \<noteq> None"
    by (simp add: u)
  have "get_reg example_runtime_writing_hp
        (snd (the (mercury____Unify___std_util__type_info_0_0_bootstrap example_runtime_writing_hp (example_engine 8 9)))) MR_hp = 10"
    by (simp add: u h)
  then show ?thesis
    by (intro conjI n example_runtime_writing_hp_registers) simp_all
qed

text \<open>
  C5, amended. When the generic Unify or Compare entry point returns, every
  transient register other than the result register \<open>r1\<close> holds what the
  comparator's call left in its slot of the in-memory register array, whatever
  the call left in the machine registers: the entry point saved the registers
  before the call and restored them after it. So, when the call left the
  in-memory register array as the save had written it, the entry point returns
  to the continuation the caller passed and every transient register other than
  \<open>r1\<close> holds the value it had at the call.
\<close>

theorem entry_points_preserve_transient_registers:
  "(mercury____Unify___std_util__type_info_0_0_bootstrap rt s = Some (k, s') \<or> mercury____Compare___std_util__type_info_0_0_bootstrap rt s = Some (k, s')) \<longrightarrow>
     (\<forall>x. transient rt x \<and> x \<noteq> MR_r 1 \<longrightarrow>
        get_reg rt s' x = MR_fake_reg (after_comparator_call rt s) x)
   \<and> (call_keeps_register_array rt s \<longrightarrow>
        k = succip rt s
        \<and> (\<forall>x. transient rt x \<and> x \<noteq> MR_r 1 \<longrightarrow> get_reg rt s' x = get_reg rt s x))"
proof (cases "MR_compare_type_info rt (r1 rt s) (r2 rt s)")
  case None
  then show ?thesis by (simp add: unify_fails compare_fails)
next
  case (Some c)
  let ?k = "MR_fake_reg (after_comparator_call rt s) MR_succip"
  from unify_returns [OF Some] obtain su where
    u: "mercury____Unify___std_util__type_info_0_0_bootstrap rt s = Some (?k, su)"
    and fu: "\<And>x. x \<noteq> MR_r 1 \<Longrightarrow> get_reg rt su x = MR_fake_reg (after_comparator_call rt s) x"
    by auto
  from compare_returns [OF Some] obtain sc where
    c: "mercury____Compare___std_util__type_info_0_0_bootstrap rt s = Some (?k, sc)"
    and fc: "\<And>x. x \<noteq> MR_r 1 \<Longrightarrow> get_reg rt sc x = MR_fake_reg (after_comparator_call rt s) x"
    by auto
  show ?thesis
  proof (intro impI)
    assume "mercury____Unify___std_util__type_info_0_0_bootstrap rt s = Some (k, s') \<or> mercury____Compare___std_util__type_info_0_0_bootstrap rt s = Some (k, s')"
    then have k: "k = ?k"
      and f: "\<And>x. x \<noteq> MR_r 1 \<Longrightarrow> get_reg rt s' x = MR_fake_reg (after_comparator_call rt s) x"
      using u fu c fc by auto
    have "call_keeps_register_array rt s \<longrightarrow>
        k = succip rt s
        \<and> (\<forall>x. transient rt x \<and> x \<noteq> MR_r 1 \<longrightarrow> get_reg rt s' x = get_reg rt s x)"
      by (simp add: k f kept_register_array)
    with f show "(\<forall>x. transient rt x \<and> x \<noteq> MR_r 1 \<longrightarrow>
        get_reg rt s' x = MR_fake_reg (after_comparator_call rt s) x)
      \<and> (call_keeps_register_array rt s \<longrightarrow>
        k = succip rt s
        \<and> (\<forall>x. transient rt x \<and> x \<noteq> MR_r 1 \<longrightarrow> get_reg rt s' x = get_reg rt s x))"
      by blast
  qed
qed

theorem entry_points_preserve_transient_registers_witness:
  "call_keeps_register_array example_runtime (example_engine 8 9)
   \<and> mr (after_comparator_call example_runtime (example_engine 8 9)) MR_hp = 0
   \<and> (\<exists>s'. mercury____Unify___std_util__type_info_0_0_bootstrap example_runtime (example_engine 8 9) = Some (99, s')
         \<and> transient example_runtime (MR_r 2) \<and> r2 example_runtime s' = 9
         \<and> transient example_runtime MR_hp \<and> get_reg example_runtime s' MR_hp = 7)"
proof -
  have c: "MR_compare_type_info example_runtime (r1 example_runtime (example_engine 8 9))
     (r2 example_runtime (example_engine 8 9)) = Some 1"
    unfolding example_registers by (simp add: example_runtime_def)
  from unify_returns [OF c] obtain k s' where
    u: "mercury____Unify___std_util__type_info_0_0_bootstrap example_runtime (example_engine 8 9) = Some (k, s')"
    by blast
  have keeps: "call_keeps_register_array example_runtime (example_engine 8 9)"
    by (rule example_call_keeps_register_array)
  have cl: "mr (after_comparator_call example_runtime (example_engine 8 9)) MR_hp = 0"
    by (simp add: after_comparator_call_def Let_def example_runtime_def)
  from entry_points_preserve_transient_registers
    [of example_runtime "example_engine 8 9" k s'] u keeps
  have k: "k = succip example_runtime (example_engine 8 9)"
    and frame: "\<forall>x. transient example_runtime x \<and> x \<noteq> MR_r 1 \<longrightarrow>
      get_reg example_runtime s' x = get_reg example_runtime (example_engine 8 9) x"
    by blast+
  have t2: "transient example_runtime (MR_r 2)" and th: "transient example_runtime MR_hp"
    by (rule example_registers)+
  have "r2 example_runtime s' = r2 example_runtime (example_engine 8 9)"
    using frame [rule_format, of "MR_r 2"] t2 by simp
  then have a: "r2 example_runtime s' = 9" by (simp only: example_registers)
  have "get_reg example_runtime s' MR_hp = get_reg example_runtime (example_engine 8 9) MR_hp"
    using frame [rule_format, of MR_hp] th by simp
  then have b: "get_reg example_runtime s' MR_hp = 7" by (simp only: example_registers)
  from u k have u': "mercury____Unify___std_util__type_info_0_0_bootstrap example_runtime (example_engine 8 9) = Some (99, s')"
    by (simp only: example_registers)
  show ?thesis
    by (intro conjI exI [of _ s'] u' t2 a th b keeps cl)
qed

section \<open>The engine entry invoker returns no result\<close>

text \<open>
  C9. For every engine function, code address and state, \<open>call_engine\<close> runs the
  engine at that address (with the flag FALSE) and returns exactly when that
  run returns, in the state the run left; what it returns is the unit value,
  whatever value the run produced.
\<close>

theorem call_engine_runs_to_completion_without_result:
  "(call_engine MR_call_engine entry_point s = None \<longleftrightarrow> MR_call_engine entry_point False s = None)
   \<and> (\<forall>r s'. MR_call_engine entry_point False s = Some (r, s') \<longrightarrow>
         call_engine MR_call_engine entry_point s = Some ((), s'))"
  by (simp add: call_engine_def split: option.splits)

theorem call_engine_runs_to_completion_without_result_witness:
  "example_MR_call_engine 5 False [3] = Some (0, [3, 5])
   \<and> call_engine example_MR_call_engine 5 [3] = Some ((), [3, 5])
   \<and> example_MR_call_engine 0 False [3] = None
   \<and> call_engine example_MR_call_engine 0 [3] = None"
  using call_engine_runs_to_completion_without_result [of example_MR_call_engine 5 "[3]"]
    call_engine_runs_to_completion_without_result [of example_MR_call_engine 0 "[3]"]
  by (simp add: example_MR_call_engine_def)

section \<open>The type descriptor of \<^verbatim>\<open>std_util:type_info/0\<close>\<close>

lemma descriptor_defined:
  "mercury_data_std_util__type_ctor_info_type_info_0 g = Some fs \<Longrightarrow>
   fs = [Integer_cast 0,
         ENTRY entry_mercury____Unify___std_util__type_info_0_0_bootstrap,
         ENTRY entry_mercury____Index___std_util__type_info_0_0_bootstrap,
         ENTRY entry_mercury____Compare___std_util__type_info_0_0_bootstrap,
         Integer_cast 15,
         Word_ptr mercury_data_std_util__type_ctor_functors_type_info_0_bootstrap,
         Word_ptr mercury_data_std_util__type_ctor_layout_type_info_0_bootstrap,
         string_const ''std_util'' 8,
         string_const ''type_info'' 9]"
  by (simp add: mercury_data_std_util__type_ctor_info_type_info_0_def split: if_splits)

lemma example_grade_descriptor:
  "mercury_data_std_util__type_ctor_info_type_info_0 example_grade =
   Some [Integer_cast 0,
         ENTRY entry_mercury____Unify___std_util__type_info_0_0_bootstrap,
         ENTRY entry_mercury____Index___std_util__type_info_0_0_bootstrap,
         ENTRY entry_mercury____Compare___std_util__type_info_0_0_bootstrap,
         Integer_cast 15,
         Word_ptr mercury_data_std_util__type_ctor_functors_type_info_0_bootstrap,
         Word_ptr mercury_data_std_util__type_ctor_layout_type_info_0_bootstrap,
         string_const ''std_util'' 8,
         string_const ''type_info'' 9]"
  by (simp add: mercury_data_std_util__type_ctor_info_type_info_0_def example_grade_def)

text \<open>
  C7, as the spec states it, fails: the kinds of the fields the initialiser
  gives, in order, are not the eight of the spec's layout. Between the compare
  entry (field 3, counting from 0) and the functors pointer (field 5) the
  initialiser has the integer 15.
\<close>

theorem descriptor_layout_is_not_the_spec_layout:
  "mercury_data_std_util__type_ctor_info_type_info_0 example_grade \<noteq> None
   \<and> map kind_of (the (mercury_data_std_util__type_ctor_info_type_info_0 example_grade))
     \<noteq> map snd spec_type_descriptor_layout
   \<and> the (mercury_data_std_util__type_ctor_info_type_info_0 example_grade) ! 3
     = ENTRY entry_mercury____Compare___std_util__type_info_0_0_bootstrap
   \<and> the (mercury_data_std_util__type_ctor_info_type_info_0 example_grade) ! 4
     = Integer_cast 15
   \<and> the (mercury_data_std_util__type_ctor_info_type_info_0 example_grade) ! 5
     = Word_ptr mercury_data_std_util__type_ctor_functors_type_info_0_bootstrap"
  unfolding example_grade_descriptor by (simp add: spec_type_descriptor_layout_def)

text \<open>
  C7, amended. Whenever the file defines the descriptor, its fields are, in
  order: an integer (arity), three code addresses (the unify, index and compare
  entries), one more integer (15), two pointers (functors, layout) and two
  length-prefixed strings (module name, type name). Leaving out the integer at
  position 4 gives the layout of the spec.
\<close>

theorem descriptor_layout:
  "mercury_data_std_util__type_ctor_info_type_info_0 g = Some fs \<Longrightarrow>
   map kind_of fs =
     [integer, code_address, code_address, code_address, integer, pointer, pointer,
      length_prefixed_string, length_prefixed_string]
   \<and> fs ! 3 = ENTRY entry_mercury____Compare___std_util__type_info_0_0_bootstrap
   \<and> fs ! 4 = Integer_cast 15
   \<and> fs ! 5 = Word_ptr mercury_data_std_util__type_ctor_functors_type_info_0_bootstrap
   \<and> map kind_of (take 4 fs @ drop 5 fs) = map snd spec_type_descriptor_layout"
  by (drule descriptor_defined) (simp add: spec_type_descriptor_layout_def)

theorem descriptor_layout_witness:
  "mercury_data_std_util__type_ctor_info_type_info_0 example_grade =
     Some (the (mercury_data_std_util__type_ctor_info_type_info_0 example_grade))
   \<and> map kind_of (the (mercury_data_std_util__type_ctor_info_type_info_0 example_grade)) =
     [integer, code_address, code_address, code_address, integer, pointer, pointer,
      length_prefixed_string, length_prefixed_string]"
proof -
  have d: "mercury_data_std_util__type_ctor_info_type_info_0 example_grade =
     Some (the (mercury_data_std_util__type_ctor_info_type_info_0 example_grade))"
    unfolding example_grade_descriptor by simp
  from descriptor_layout [OF d] d show ?thesis by blast
qed

text \<open>
  C10. Whenever the file defines the descriptor, it reads as a type constructor
  descriptor with module name "std_util", type name "type_info" and arity 0,
  whose unify, index and compare entries are the three labels that the module's
  initialisation registers, in that order and distinct, and at which the module
  defines the Unify, Index and Compare entry points.
\<close>

theorem descriptor_identifies_type_info:
  "mercury_data_std_util__type_ctor_info_type_info_0 g = Some fs \<Longrightarrow>
   (\<exists>d. struct_of_initializer fs = Some d
      \<and> moduleName d = ''std_util'' \<and> typeName d = ''type_info'' \<and> arity d = 0
      \<and> unifyEntry d = entry_mercury____Unify___std_util__type_info_0_0_bootstrap
      \<and> indexEntry d = entry_mercury____Index___std_util__type_info_0_0_bootstrap
      \<and> compareEntry d = entry_mercury____Compare___std_util__type_info_0_0_bootstrap
      \<and> sys_init_unify_univ_module_bootstrap [] = [unifyEntry d, indexEntry d, compareEntry d]
      \<and> distinct [unifyEntry d, indexEntry d, compareEntry d]
      \<and> (\<forall>rt s. Define_entry (unifyEntry d) rt s =
            mercury____Unify___std_util__type_info_0_0_bootstrap rt s)
      \<and> (\<forall>rt s. Define_entry (indexEntry d) rt s =
            Some (mercury____Index___std_util__type_info_0_0_bootstrap rt s))
      \<and> (\<forall>rt s. Define_entry (compareEntry d) rt s =
            mercury____Compare___std_util__type_info_0_0_bootstrap rt s))"
  by (drule descriptor_defined)
    (simp add: struct_of_initializer_def sys_init_unify_univ_module_bootstrap_def
      unify_univ_module_bootstrap_def init_entry_def)

theorem descriptor_identifies_type_info_witness:
  "mercury_data_std_util__type_ctor_info_type_info_0 example_grade =
     Some (the (mercury_data_std_util__type_ctor_info_type_info_0 example_grade))
   \<and> (\<exists>d. struct_of_initializer
              (the (mercury_data_std_util__type_ctor_info_type_info_0 example_grade)) = Some d
          \<and> moduleName d = ''std_util'' \<and> typeName d = ''type_info'' \<and> arity d = 0)"
proof -
  have d: "mercury_data_std_util__type_ctor_info_type_info_0 example_grade =
     Some (the (mercury_data_std_util__type_ctor_info_type_info_0 example_grade))"
    unfolding example_grade_descriptor by simp
  from descriptor_identifies_type_info [OF d] d show ?thesis by blast
qed

section \<open>The structural comparator as an order\<close>

text \<open>More fuel never changes a result the comparator has reached.\<close>

lemma compare_lists_mono:
  assumes fg: "\<And>x y r. f x y = Inr r \<Longrightarrow> g x y = Inr r"
  shows "compare_lists f xs ys = Inr r \<Longrightarrow> compare_lists g xs ys = Inr r"
proof (induction xs arbitrary: ys)
  case Nil
  then show ?case by (cases ys) simp_all
next
  case (Cons x xs)
  show ?case
  proof (cases ys)
    case Nil
    with Cons.prems show ?thesis by simp
  next
    case ys: (Cons y ys')
    from Cons.prems have "(f x y = Inr EQUAL \<and> compare_lists f xs ys' = Inr r) \<or> (f x y = Inr r \<and> r \<noteq> EQUAL)"
      unfolding ys compare_lists_Cons_Inr_iff .
    then have "(g x y = Inr EQUAL \<and> compare_lists g xs ys' = Inr r) \<or> (g x y = Inr r \<and> r \<noteq> EQUAL)"
      using fg Cons.IH by blast
    then show ?thesis unfolding ys compare_lists_Cons_Inr_iff .
  qed
qed

lemma structural_order_mono:
  assumes fg: "\<And>x y r. f x y = Inr r \<Longrightarrow> g x y = Inr r"
    and s: "structural_order f da db = Inr r"
  shows "structural_order g da db = Inr r"
  using s compare_lists_mono [of f g "reg_layoutInfo da" "reg_layoutInfo db" r, OF fg]
  unfolding structural_order_def then_compare_Inr_iff by blast

lemma compare_descriptors_fuel_Suc:
  "compare_descriptors n table a b = Inr r \<Longrightarrow> compare_descriptors (Suc n) table a b = Inr r"
proof (induction n arbitrary: a b r)
  case 0
  then show ?case by (simp split: if_splits)
next
  case (Suc n)
  show ?case
  proof (cases "a = b")
    case True
    with Suc.prems show ?thesis by simp
  next
    case False
    with Suc.prems obtain da db where t: "table a = Some da" "table b = Some db"
      and s: "structural_order (compare_descriptors n table) da db = Inr r"
      unfolding compare_descriptors_Suc_structural [of n] by (simp add: via_table_Inr) blast
    have "structural_order (compare_descriptors (Suc n) table) da db = Inr r"
      by (rule structural_order_mono [OF Suc.IH s])
    with False t show ?thesis
      unfolding compare_descriptors_Suc_structural [of "Suc n"] by simp
  qed
qed

lemma compare_descriptors_fuel_mono:
  "n \<le> m \<Longrightarrow> compare_descriptors n table a b = Inr r \<Longrightarrow> compare_descriptors m table a b = Inr r"
proof (induction m)
  case 0
  then show ?case by simp
next
  case (Suc m)
  show ?case
  proof (cases "n = Suc m")
    case True
    with Suc.prems show ?thesis by simp
  next
    case False
    with Suc.prems have "n \<le> m" by simp
    from Suc.IH [OF this Suc.prems(2)] show ?thesis by (rule compare_descriptors_fuel_Suc)
  qed
qed

lemma example_comparisons:
  "compare_descriptors 1 example_table 2 3 = Inr LESS"
  "compare_descriptors 2 example_table 3 4 = Inr LESS"
  "compare_descriptors 1 example_table 3 4 = Inl Out_of_fuel"
  by code_simp+

text \<open>
  On a well-ranked table the comparator returns one of its three results for any
  two registered descriptors, once the fuel exceeds their ranks.
\<close>

lemma compare_lists_returns:
  assumes "\<And>x y. x \<in> set xs \<Longrightarrow> y \<in> set ys \<Longrightarrow> \<exists>r. f x y = Inr r"
  shows "\<exists>r. compare_lists f xs ys = Inr r"
  using assms
proof (induction f xs ys rule: compare_lists.induct)
  case (4 f x xs y ys)
  from "4.prems" [of x y] obtain c where c: "f x y = Inr c" by auto
  show ?case
  proof (cases c)
    case EQUAL
    have tl: "\<exists>r. f x' y' = Inr r" if "x' \<in> set xs" "y' \<in> set ys" for x' y'
      using "4.prems" [of x' y'] that by simp
    have "\<exists>r. compare_lists f xs ys = Inr r"
      using "4.IH" [OF c [unfolded EQUAL] refl] tl by blast
    with c EQUAL show ?thesis by simp
  qed (simp_all add: c)
qed simp_all

lemma structural_order_returns:
  assumes "\<exists>r. compare_lists g (reg_layoutInfo da) (reg_layoutInfo db) = Inr r"
  shows "\<exists>r. structural_order g da db = Inr r"
  using assms
  by (auto simp: structural_order_def then_compare_def compare_int_def
      split: comparison.splits sum.splits)

lemma compare_descriptors_returns:
  assumes wr: "well_ranked table rank"
  shows "table a \<noteq> None \<Longrightarrow> table b \<noteq> None \<Longrightarrow> rank a \<le> n \<Longrightarrow> rank b \<le> n \<Longrightarrow>
         \<exists>r. compare_descriptors (Suc n) table a b = Inr r"
proof (induction n arbitrary: a b)
  case 0
  from "0.prems" obtain da db where t: "table a = Some da" "table b = Some db" by auto
  from wr t "0.prems" have "reg_layoutInfo da = []" "reg_layoutInfo db = []"
    unfolding well_ranked_def by (cases "reg_layoutInfo da"; fastforce)+
  then have "\<exists>r. structural_order (compare_descriptors 0 table) da db = Inr r"
    by (intro structural_order_returns) simp
  then show ?case unfolding compare_descriptors_Suc_structural by (simp add: t)
next
  case (Suc n)
  from Suc.prems obtain da db where t: "table a = Some da" "table b = Some db" by auto
  have "\<exists>r. compare_descriptors (Suc n) table x y = Inr r"
    if "x \<in> set (reg_layoutInfo da)" "y \<in> set (reg_layoutInfo db)" for x y
  proof -
    from wr t that have "table x \<noteq> None" "rank x < rank a" "table y \<noteq> None" "rank y < rank b"
      unfolding well_ranked_def by blast+
    with Suc.prems have "rank x \<le> n" "rank y \<le> n" by simp_all
    with \<open>table x \<noteq> None\<close> \<open>table y \<noteq> None\<close> show ?thesis by (intro Suc.IH)
  qed
  then have "\<exists>r. structural_order (compare_descriptors (Suc n) table) da db = Inr r"
    by (intro structural_order_returns compare_lists_returns)
  then show ?case unfolding compare_descriptors_Suc_structural [of "Suc n"] by (simp add: t)
qed

text \<open>
  C3. The three-way result of the structural comparator is that of an order on
  the registered descriptors: comparing \<open>a\<close> with \<open>b\<close> gives LESS exactly when
  comparing \<open>b\<close> with \<open>a\<close> gives GREATER, and when \<open>a\<close> is LESS than \<open>b\<close> and \<open>b\<close>
  is LESS than \<open>c\<close> then \<open>a\<close> is LESS than \<open>c\<close>. The two premises may have been
  reached with different fuel \<open>n\<close> and \<open>m\<close>; the conclusion holds with the larger
  of the two (with \<open>n\<close> itself when they are equal).
\<close>

theorem structural_comparator_is_an_order:
  "(compare_descriptors n table a b = Inr LESS \<longleftrightarrow> compare_descriptors n table b a = Inr GREATER)
   \<and> (compare_descriptors n table a b = Inr LESS \<and> compare_descriptors m table b c = Inr LESS
        \<longrightarrow> compare_descriptors (max n m) table a c = Inr LESS)"
proof (intro conjI impI)
  have "compare_descriptors n table b a = map_sum id flip_comparison (compare_descriptors n table a b)"
    by (rule consistent_order_flip [OF consistent_order_compare_descriptors])
  then show "compare_descriptors n table a b = Inr LESS \<longleftrightarrow> compare_descriptors n table b a = Inr GREATER"
    by (simp only: flip_result_cases)
next
  assume "compare_descriptors n table a b = Inr LESS \<and> compare_descriptors m table b c = Inr LESS"
  then have ab: "compare_descriptors (max n m) table a b = Inr LESS"
    and bc: "compare_descriptors (max n m) table b c = Inr LESS"
    using compare_descriptors_fuel_mono [of n "max n m" table a b LESS]
      compare_descriptors_fuel_mono [of m "max n m" table b c LESS] by simp_all
  show "compare_descriptors (max n m) table a c = Inr LESS"
    by (rule consistent_order_less [OF consistent_order_compare_descriptors ab bc])
qed

theorem structural_comparator_is_an_order_witness:
  "compare_descriptors 1 example_table 2 3 = Inr LESS
   \<and> compare_descriptors 1 example_table 3 2 = Inr GREATER
   \<and> compare_descriptors 2 example_table 3 4 = Inr LESS
   \<and> compare_descriptors 2 example_table 2 4 = Inr LESS"
proof -
  note order = structural_comparator_is_an_order [of 1 example_table 2 3 2 4]
  have a: "compare_descriptors 1 example_table 2 3 = Inr LESS"
    and b: "compare_descriptors 2 example_table 3 4 = Inr LESS"
    by (rule example_comparisons)+
  from order a have c: "compare_descriptors 1 example_table 3 2 = Inr GREATER"
    by blast
  from order a b have "compare_descriptors (max 1 2) example_table 2 4 = Inr LESS"
    by blast
  moreover have "max (1::nat) 2 = 2" by simp
  ultimately have d: "compare_descriptors 2 example_table 2 4 = Inr LESS"
    by (simp only:)
  show ?thesis by (intro conjI a b c d)
qed

text \<open>
  C4. Comparing a descriptor with itself gives EQUAL, for every table and every
  fuel; and with the same descriptor in both argument registers, the Compare
  entry point returns with the constant for EQUAL in \<open>r1\<close> and the Unify entry
  point returns with true (1) in \<open>r1\<close>, when the comparator they call is the
  structural comparator. Each returns through the continuation the caller passed
  when the call left the in-memory register array alone.
\<close>

theorem compare_and_unify_reflexive:
  "compare_descriptors n table d d = Inr EQUAL
   \<and> (r1 rt s = d \<and> r2 rt s = d \<longrightarrow>
        (\<exists>k s'. mercury____Compare___std_util__type_info_0_0_bootstrap (with_structural_comparator n table rt) s = Some (k, s')
              \<and> r1 rt s' = word_of_int (COMPARE_EQUAL rt)
              \<and> (call_keeps_register_array rt s \<longrightarrow> k = succip rt s))
      \<and> (\<exists>k s'. mercury____Unify___std_util__type_info_0_0_bootstrap (with_structural_comparator n table rt) s = Some (k, s')
              \<and> r1 rt s' = 1
              \<and> (call_keeps_register_array rt s \<longrightarrow> k = succip rt s)))"
proof (intro conjI impI)
  show refl: "compare_descriptors n table d d = Inr EQUAL"
    by (cases n) simp_all
  assume regs: "r1 rt s = d \<and> r2 rt s = d"
  let ?rt = "with_structural_comparator n table rt"
  let ?k = "MR_fake_reg (after_comparator_call rt s) MR_succip"
  have g: "\<And>t x. get_reg ?rt t x = get_reg rt t x"
    by (simp add: get_reg_def with_structural_comparator_def)
  have e: "COMPARE_EQUAL ?rt = COMPARE_EQUAL rt"
    by (simp add: with_structural_comparator_def)
  have a: "after_comparator_call ?rt s = after_comparator_call rt s"
    by (simp add: after_comparator_call_def Let_def get_reg_def save_transient_registers_def
        with_structural_comparator_def)
  have c: "MR_compare_type_info ?rt (r1 ?rt s) (r2 ?rt s) = Some (COMPARE_EQUAL rt)"
    unfolding g using regs refl
    by (simp add: with_structural_comparator_def comparison_constant_def)
  have k: "call_keeps_register_array rt s \<longrightarrow> ?k = succip rt s"
    by (simp add: kept_register_array)
  from compare_returns [OF c] obtain sc where
    "mercury____Compare___std_util__type_info_0_0_bootstrap ?rt s = Some (?k, sc)" "r1 rt sc = word_of_int (COMPARE_EQUAL rt)"
    unfolding g a by auto
  then show "\<exists>k s'. mercury____Compare___std_util__type_info_0_0_bootstrap ?rt s = Some (k, s')
              \<and> r1 rt s' = word_of_int (COMPARE_EQUAL rt)
              \<and> (call_keeps_register_array rt s \<longrightarrow> k = succip rt s)"
    using k by blast
  from unify_returns [OF c] obtain su where
    "mercury____Unify___std_util__type_info_0_0_bootstrap ?rt s = Some (?k, su)" "r1 rt su = 1"
    unfolding g a e by auto
  then show "\<exists>k s'. mercury____Unify___std_util__type_info_0_0_bootstrap ?rt s = Some (k, s')
              \<and> r1 rt s' = 1
              \<and> (call_keeps_register_array rt s \<longrightarrow> k = succip rt s)"
    using k by blast
qed

theorem compare_and_unify_reflexive_witness:
  "r1 example_runtime (example_engine 3 3) = 3 \<and> r2 example_runtime (example_engine 3 3) = 3
   \<and> example_table 3 \<noteq> None
   \<and> compare_descriptors 2 example_table 3 3 = Inr EQUAL
   \<and> (\<exists>s'. mercury____Compare___std_util__type_info_0_0_bootstrap
              (with_structural_comparator 2 example_table example_runtime) (example_engine 3 3)
              = Some (99, s') \<and> r1 example_runtime s' = 0)
   \<and> (\<exists>s'. mercury____Unify___std_util__type_info_0_0_bootstrap
              (with_structural_comparator 2 example_table example_runtime) (example_engine 3 3)
              = Some (99, s') \<and> r1 example_runtime s' = 1)"
proof -
  note refl = compare_and_unify_reflexive [of 2 example_table 3 example_runtime "example_engine 3 3"]
  have regs: "r1 example_runtime (example_engine 3 3) = 3 \<and> r2 example_runtime (example_engine 3 3) = 3"
    by (simp only: example_registers)
  have t: "example_table 3 \<noteq> None"
    by (simp add: example_table_def)
  from refl regs example_call_keeps_register_array [of 3 3] show ?thesis
    unfolding example_registers using t by auto
qed

end
